theory Spec2Isabelle
  imports Main "HOL-Library.Sublist"
begin

section \<open>Manifest data model\<close>

text \<open>
  Modelled from the spec: the module \<^verbatim>\<open>manifest/models.py\<close> (the enum \<^verbatim>\<open>Status\<close>, the
  models \<^verbatim>\<open>TaskManifest\<close> and \<^verbatim>\<open>StepManifest\<close>) is not among the sources. The spec's data
  model gives the status values and the fields of a task record and of a step manifest.
  The string \<^verbatim>\<open>status.value\<close> of a status is not given anywhere, so every function that
  prints it takes the printing function as its first argument.
\<close>

datatype Status =
  PENDING | RUNNING | COMPLETED | VALIDATION_PASSED | VALIDATION_FAILED | FAILED

record TaskManifest =
  task_name :: string
  task_status :: Status
  destination_path :: string
  checksum :: "string option"
  message :: string

record StepManifest =
  step_name :: string
  step_status :: Status
  tasks :: "TaskManifest list"
  log :: "string list"

text \<open>
  Modelled from the spec: \<^verbatim>\<open>StepManifest(name=...)\<close>, the constructor of the missing model.
  A step starts PENDING with no task and no log line.
\<close>

definition new_StepManifest :: "string \<Rightarrow> StepManifest" where
  "new_StepManifest n = \<lparr>step_name = n, step_status = PENDING, tasks = [], log = []\<rparr>"

section \<open>The step reporter (\<^verbatim>\<open>manifest/step_reporter.py\<close>)\<close>

record StepReporter =
  name :: string
  manifest :: StepManifest

definition StepReporter_init :: "string \<Rightarrow> StepReporter" where
  "StepReporter_init n = \<lparr>name = n, manifest = new_StepManifest n\<rparr>"

text \<open>The test \<^verbatim>\<open>status not in [Status.COMPLETED, Status.VALIDATION_PASSED]\<close>, negated.\<close>

definition passing :: "Status \<Rightarrow> bool" where
  "passing st = (st \<in> set [COMPLETED, VALIDATION_PASSED])"

text \<open>
  \<^verbatim>\<open>add_task_report(task_manifest, abort)\<close>. The \<^verbatim>\<open>threading.Event\<close> is its flag: a
  bool that \<^verbatim>\<open>abort.set()\<close> makes true. The reporter and the event are both mutated, so
  both are returned.
\<close>

definition add_task_report :: "StepReporter \<Rightarrow> TaskManifest \<Rightarrow> bool \<Rightarrow> StepReporter \<times> bool" where
  "add_task_report r task_manifest abort =
     (let r' = r\<lparr>manifest := (manifest r)\<lparr>tasks := tasks (manifest r) @ [task_manifest]\<rparr>\<rparr>
      in if \<not> passing (task_status task_manifest) then (r', True) else (r', abort))"

text \<open>Feeding a sequence of task records to one reporter, with one shared event.\<close>

fun add_task_reports :: "StepReporter \<Rightarrow> TaskManifest list \<Rightarrow> bool \<Rightarrow> StepReporter \<times> bool" where
  "add_task_reports r [] abort = (r, abort)"
| "add_task_reports r (t # ts) abort =
     (case add_task_report r t abort of (r', abort') \<Rightarrow> add_task_reports r' ts abort')"

text \<open>The f-string \<^verbatim>\<open>f'task `{task.name}` {task.status.value}'\<close>.\<close>

definition task_line :: "(Status \<Rightarrow> string) \<Rightarrow> TaskManifest \<Rightarrow> string" where
  "task_line val task = ''task `'' @ task_name task @ ''` '' @ val (task_status task)"

text \<open>One round of the loop of \<^verbatim>\<open>complete\<close>: the log line, then the status.\<close>

definition complete_task :: "(Status \<Rightarrow> string) \<Rightarrow> StepManifest \<Rightarrow> TaskManifest \<Rightarrow> StepManifest" where
  "complete_task val m task =
     (let m' = m\<lparr>log := log m @ [task_line val task]\<rparr>
      in if \<not> passing (task_status task) then m'\<lparr>step_status := FAILED\<rparr> else m')"

definition complete :: "(Status \<Rightarrow> string) \<Rightarrow> StepReporter \<Rightarrow> StepReporter" where
  "complete val r =
     r\<lparr>manifest :=
         foldl (complete_task val) ((manifest r)\<lparr>step_status := COMPLETED\<rparr>) (tasks (manifest r))\<rparr>"




text \<open>
  Modelled from the spec: the strings of the status values. The spec calls the enumerated
  status values the wire contract and writes them as the names below. The theorems hold for
  every printing function; this one is used where a concrete one is needed.
\<close>

fun Status_value :: "Status \<Rightarrow> string" where
  "Status_value PENDING = ''PENDING''"
| "Status_value RUNNING = ''RUNNING''"
| "Status_value COMPLETED = ''COMPLETED''"
| "Status_value VALIDATION_PASSED = ''VALIDATION_PASSED''"
| "Status_value VALIDATION_FAILED = ''VALIDATION_FAILED''"
| "Status_value FAILED = ''FAILED''"

text \<open>A task record with a name and a status, nothing staged.\<close>

definition task_of :: "string \<Rightarrow> Status \<Rightarrow> TaskManifest" where
  "task_of n st =
     \<lparr>task_name = n, task_status = st, destination_path = [], checksum = None, message = []\<rparr>"

section \<open>The GO step (\<^verbatim>\<open>plugins/go.py\<close>)\<close>

text \<open>
  Modelled from the spec: the step object that \<^verbatim>\<open>get_manifest_service().get_step\<close>
  returns. Its class is not among the sources; \<^verbatim>\<open>process\<close> reads and writes its
  \<^verbatim>\<open>resources\<close>, \<^verbatim>\<open>status_completion\<close> and \<^verbatim>\<open>msg_completion\<close>. The resources are task
  records, and \<^verbatim>\<open>ManifestStatus\<close> is the status enumeration.
\<close>

record ManifestStep =
  resources :: "TaskManifest list"
  status_completion :: Status
  msg_completion :: string

text \<open>
  Modelled from the spec: \<^verbatim>\<open>are_all_resources_complete\<close> of the manifest service, which is
  not among the sources: true iff every record's status is in {COMPLETED, VALIDATION_PASSED}.
\<close>

definition are_all_resources_complete :: "TaskManifest list \<Rightarrow> bool" where
  "are_all_resources_complete rs = list_all (\<lambda>r. passing (task_status r)) rs"

text \<open>
  Modelled from the spec: \<^verbatim>\<open>compute_checksums\<close> of the manifest service, which is not among
  the sources. It attaches the digest of the staged file to every record whose status is in
  {COMPLETED, VALIDATION_PASSED} and leaves the other records alone; a file that cannot be
  read leaves the checksum of its record as it was. The digest of the file at a path
  (\<open>None\<close> when unreadable) is the first argument.
\<close>

definition compute_checksum :: "(string \<Rightarrow> string option) \<Rightarrow> TaskManifest \<Rightarrow> TaskManifest" where
  "compute_checksum digest r =
     (if passing (task_status r)
      then (case digest (destination_path r) of
              None \<Rightarrow> r
            | Some d \<Rightarrow> r\<lparr>checksum := Some d\<rparr>)
      else r)"

definition compute_checksums :: "(string \<Rightarrow> string option) \<Rightarrow> TaskManifest list \<Rightarrow> TaskManifest list" where
  "compute_checksums digest rs = map (compute_checksum digest) rs"

text \<open>A staging area in which no file can be read.\<close>

definition unreadable :: "string \<Rightarrow> string option" where
  "unreadable path = None"

text \<open>
  \<^verbatim>\<open>GO.process\<close>. The two methods of the manifest service that it calls are arguments
  (\<open>checksums\<close> returns the records as \<^verbatim>\<open>compute_checksums\<close> leaves them, \<open>all_complete\<close> is
  \<^verbatim>\<open>are_all_resources_complete\<close>), as are the records that
  \<^verbatim>\<open>Downloads(output.prod_dir).exec(conf)\<close> returns and the step that \<^verbatim>\<open>get_step\<close> returns.
  The mutated step is the result.
\<close>

definition GO_process ::
  "(TaskManifest list \<Rightarrow> TaskManifest list) \<Rightarrow> (TaskManifest list \<Rightarrow> bool) \<Rightarrow>
   TaskManifest list \<Rightarrow> ManifestStep \<Rightarrow> ManifestStep" where
  "GO_process checksums all_complete downloaded manifest_step =
     (let s1 = manifest_step\<lparr>resources := resources manifest_step @ downloaded\<rparr>;
          s2 = s1\<lparr>resources := checksums (resources s1)\<rparr>;
          s3 = (if \<not> all_complete (resources s2)
                then s2\<lparr>status_completion := FAILED,
                        msg_completion := ''COULD NOT retrieve all the resources''\<rparr>
                else s2)
      in if status_completion s3 \<noteq> FAILED
         then s3\<lparr>status_completion := COMPLETED,
                 msg_completion := ''The step has completed its execution''\<rparr>
         else s3)"

section \<open>The Google Cloud Storage helper (\<^verbatim>\<open>helpers/google.py\<close>)\<close>

text \<open>
  \<^verbatim>\<open>str.replace(old, new)\<close>: the occurrences of \<open>old\<close> are found from the left and do not
  overlap; with an empty \<open>old\<close>, \<open>new\<close> is put before every character and at the end.
\<close>

fun py_replace :: "string \<Rightarrow> string \<Rightarrow> string \<Rightarrow> string" where
  "py_replace old new s =
     (if old = [] then new @ concat (map (\<lambda>c. c # new) s)
      else if s = [] then []
      else if prefix old s then new @ py_replace old new (drop (length old) s)
      else hd s # py_replace old new (tl s))"

declare py_replace.simps [simp del]

text \<open>
  \<^verbatim>\<open>s.split(sep, 1)\<close> for a separator of one character: the text before the first
  separator and the text after it, or the string alone when it has no separator.
\<close>

definition split1 :: "char \<Rightarrow> string \<Rightarrow> string list" where
  "split1 sep s =
     (if sep \<in> set s
      then [takeWhile (\<lambda>c. c \<noteq> sep) s, tl (dropWhile (\<lambda>c. c \<noteq> sep) s)]
      else [s])"

definition parse_url :: "string \<Rightarrow> string \<times> string option" where
  "parse_url url =
     (let url_parts = split1 CHR ''/'' (py_replace ''gs://'' [] url);
          bucket_name = url_parts ! 0;
          file_path = (if length url_parts > 1 then Some (url_parts ! 1) else None)
      in (bucket_name, file_path))"

text \<open>
  The cloud behind the helper. \<^verbatim>\<open>NotFound\<close> is a subclass of \<^verbatim>\<open>GoogleCloudError\<close>, and
  every handler of the helper catches \<^verbatim>\<open>NotFound\<close> first. A bucket is what the helper asks
  of it: \<^verbatim>\<open>list_blobs(prefix=...)\<close>, which gives the names of the blobs or raises. The
  client is \<^verbatim>\<open>get_bucket\<close>.
\<close>

datatype CloudError = NotFound | GoogleCloudError string

record Bucket =
  list_blobs :: "string option \<Rightarrow> CloudError + string list"

record GoogleHelper =
  client :: "string \<Rightarrow> CloudError + Bucket"

text \<open>
  What the constructor reads: \<^verbatim>\<open>auth.default()\<close> (the project id, or the text of a
  \<^verbatim>\<open>DefaultCredentialsError\<close>), the setting \<^verbatim>\<open>config.gcp_bucket_path\<close>, and the client that
  \<^verbatim>\<open>storage.Client()\<close> returns.
\<close>

record Environment =
  auth_default :: "string + string"
  gcp_bucket_path :: "string option"
  storage_Client :: "string \<Rightarrow> CloudError + Bucket"

text \<open>\<^verbatim>\<open>sys.exit(code)\<close> raises \<^verbatim>\<open>SystemExit\<close> with the exit status.\<close>

datatype SystemExit = SystemExit nat

definition bucket_exists :: "GoogleHelper \<Rightarrow> string \<Rightarrow> bool" where
  "bucket_exists self url =
     (case parse_url url of (bucket_name, _) \<Rightarrow>
        (case client self bucket_name of
           Inr b \<Rightarrow> True
         | Inl NotFound \<Rightarrow> False
         | Inl (GoogleCloudError e) \<Rightarrow> False))"

text \<open>
  \<^verbatim>\<open>GoogleHelper.__init__\<close>. \<^verbatim>\<open>SystemExit\<close> is not a \<^verbatim>\<open>GoogleHelperError\<close>, so the handler
  around the bucket check lets it through, and \<^verbatim>\<open>bucket_exists\<close> raises nothing.
\<close>

definition GoogleHelper_init :: "Environment \<Rightarrow> SystemExit + GoogleHelper" where
  "GoogleHelper_init env =
     (case auth_default env of
        Inl e \<Rightarrow> Inl (SystemExit 1)
      | Inr project_id \<Rightarrow>
          (let self = \<lparr>client = storage_Client env\<rparr>
           in case gcp_bucket_path env of
                None \<Rightarrow> Inl (SystemExit 1)
              | Some path \<Rightarrow>
                  if \<not> bucket_exists self path then Inl (SystemExit 1) else Inr self))"

text \<open>\<^verbatim>\<open>x in name\<close> on strings is the test for a contiguous substring.\<close>

definition GoogleHelper_list ::
  "GoogleHelper \<Rightarrow> string \<Rightarrow> string option \<Rightarrow> string option \<Rightarrow> string list" where
  "GoogleHelper_list self url include exclude =
     (case parse_url url of (bucket_name, pfx) \<Rightarrow>
        (case client self bucket_name of
           Inl NotFound \<Rightarrow> []
         | Inl (GoogleCloudError e) \<Rightarrow> []
         | Inr bucket \<Rightarrow>
             (case list_blobs bucket pfx of
                Inl NotFound \<Rightarrow> []
              | Inl (GoogleCloudError e) \<Rightarrow> []
              | Inr file_list \<Rightarrow>
                  (let file_list' =
                     (case include of
                        Some i \<Rightarrow> filter (\<lambda>blob. sublist i blob) file_list
                      | None \<Rightarrow>
                          (case exclude of
                             Some x \<Rightarrow> filter (\<lambda>blob. \<not> sublist x blob) file_list
                           | None \<Rightarrow> file_list))
                   in map (\<lambda>blob. ''gs://'' @ bucket_name @ ''/'' @ blob) file_list'))))"

text \<open>A cloud with one bucket, \<^verbatim>\<open>b\<close>, holding three blobs; every other lookup is NotFound.\<close>

definition example_bucket :: Bucket where
  "example_bucket = \<lparr>list_blobs = (\<lambda>pfx. Inr [''in/a.txt'', ''in/b.csv'', ''out/a.txt''])\<rparr>"

definition example_client :: "string \<Rightarrow> CloudError + Bucket" where
  "example_client bucket_name = (if bucket_name = ''b'' then Inr example_bucket else Inl NotFound)"

section \<open>The settings (\<^verbatim>\<open>config/models.py\<close>)\<close>

text \<open>
  The values that the fields of the settings models hold. \<^verbatim>\<open>setattr\<close> on a pydantic model
  does not validate (the models do not set \<^verbatim>\<open>validate_assignment\<close>), so a field of
  \<^verbatim>\<open>Settings\<close> can come to hold any value of an incoming model, \<^verbatim>\<open>None\<close> too.
\<close>

datatype PyValue = PyNone | PyStr string | PyInt int | PyPath string

record Settings =
  step :: PyValue
  config_file :: PyValue
  work_dir :: PyValue
  remote_uri :: PyValue
  pool :: PyValue
  log_level :: PyValue











section \<open>Properties of the step reporter\<close>

lemma foldl_complete_task_tasks:
  "tasks (foldl (complete_task val) m ts) = tasks m"
  by (induction ts arbitrary: m) (simp_all add: complete_task_def Let_def)

lemma foldl_complete_task_name:
  "step_name (foldl (complete_task val) m ts) = step_name m"
  by (induction ts arbitrary: m) (simp_all add: complete_task_def Let_def)

lemma foldl_complete_task_log:
  "log (foldl (complete_task val) m ts) = log m @ map (task_line val) ts"
  by (induction ts arbitrary: m) (simp_all add: complete_task_def Let_def)

lemma foldl_complete_task_failed:
  "step_status m = FAILED \<Longrightarrow> step_status (foldl (complete_task val) m ts) = FAILED"
  by (induction ts arbitrary: m) (simp_all add: complete_task_def Let_def)

lemma foldl_complete_task_status:
  "step_status (foldl (complete_task val) m ts) =
     (if list_all (\<lambda>t. passing (task_status t)) ts then step_status m else FAILED)"
proof (induction ts arbitrary: m)
  case Nil
  show ?case by simp
next
  case (Cons t ts)
  show ?case
  proof (cases "passing (task_status t)")
    case True
    then have "step_status (complete_task val m t) = step_status m"
      by (simp add: complete_task_def Let_def)
    with True show ?thesis by (simp add: Cons.IH)
  next
    case False
    then have "step_status (complete_task val m t) = FAILED"
      by (simp add: complete_task_def Let_def)
    then have "step_status (foldl (complete_task val) (complete_task val m t) ts) = FAILED"
      by (rule foldl_complete_task_failed)
    with False show ?thesis by simp
  qed
qed

lemma complete_tasks: "tasks (manifest (complete val r)) = tasks (manifest r)"
  by (simp add: complete_def foldl_complete_task_tasks)

lemma complete_log:
  "log (manifest (complete val r)) = log (manifest r) @ map (task_line val) (tasks (manifest r))"
  by (simp add: complete_def foldl_complete_task_log)

lemma complete_status:
  "step_status (manifest (complete val r)) =
     (if list_all (\<lambda>t. passing (task_status t)) (tasks (manifest r)) then COMPLETED else FAILED)"
  by (simp add: complete_def foldl_complete_task_status)

lemma passing_iff: "passing st \<longleftrightarrow> st = COMPLETED \<or> st = VALIDATION_PASSED"
  by (auto simp: passing_def)

lemma add_task_reports_tasks:
  "tasks (manifest (fst (add_task_reports r ts abort))) = tasks (manifest r) @ ts"
  by (induction ts arbitrary: r abort) (simp_all add: add_task_report_def Let_def)

lemma add_task_reports_abort:
  "snd (add_task_reports r ts abort) =
     (abort \<or> \<not> list_all (\<lambda>t. passing (task_status t)) ts)"
  by (induction ts arbitrary: r abort) (auto simp: add_task_report_def Let_def)

text \<open>
  Claim C1. After \<^verbatim>\<open>complete()\<close> the status of the step is COMPLETED if and only if every
  task record of the step has a status in {COMPLETED, VALIDATION_PASSED}, and it is FAILED
  otherwise, whatever task records the reporter has ingested; so one FAILED record among any
  number of passing ones makes the step FAILED.
\<close>

theorem complete_status_iff_all_passing:
  "(step_status (manifest (complete val r)) = COMPLETED \<longleftrightarrow>
      (\<forall>t \<in> set (tasks (manifest r)). task_status t \<in> {COMPLETED, VALIDATION_PASSED}))
   \<and> (step_status (manifest (complete val r)) \<noteq> COMPLETED \<longrightarrow>
      step_status (manifest (complete val r)) = FAILED)
   \<and> (tasks (manifest (fst (add_task_reports r0 ts abort))) = tasks (manifest r0) @ ts)
   \<and> ((\<exists>t \<in> set ts. task_status t = FAILED) \<longrightarrow>
      step_status (manifest (complete val (fst (add_task_reports r0 ts abort)))) = FAILED)"
proof -
  have all: "\<And>xs. list_all (\<lambda>t. passing (task_status t)) xs \<longleftrightarrow>
      (\<forall>t \<in> set xs. task_status t \<in> {COMPLETED, VALIDATION_PASSED})"
    by (simp add: list_all_iff passing_iff)
  have a: "step_status (manifest (complete val r)) = COMPLETED \<longleftrightarrow>
      (\<forall>t \<in> set (tasks (manifest r)). task_status t \<in> {COMPLETED, VALIDATION_PASSED})"
    unfolding complete_status all [symmetric] by simp
  have b: "step_status (manifest (complete val r)) \<noteq> COMPLETED \<longrightarrow>
      step_status (manifest (complete val r)) = FAILED"
    unfolding complete_status by simp
  have c: "tasks (manifest (fst (add_task_reports r0 ts abort))) = tasks (manifest r0) @ ts"
    by (rule add_task_reports_tasks)
  have d: "(\<exists>t \<in> set ts. task_status t = FAILED) \<longrightarrow>
      step_status (manifest (complete val (fst (add_task_reports r0 ts abort)))) = FAILED"
  proof
    assume "\<exists>t \<in> set ts. task_status t = FAILED"
    then obtain t where t: "t \<in> set ts" "task_status t = FAILED" by blast
    then have np: "\<not> passing (task_status t)" by (simp add: passing_iff)
    from t(1) np have "\<not> list_all (\<lambda>t. passing (task_status t)) (tasks (manifest r0) @ ts)"
      unfolding list_all_iff by auto
    then show "step_status (manifest (complete val (fst (add_task_reports r0 ts abort)))) = FAILED"
      by (simp add: complete_status add_task_reports_tasks)
  qed
  from a b c d show ?thesis by blast
qed


theorem complete_status_iff_all_passing_witness:
  "(\<exists>t \<in> set [task_of ''a'' COMPLETED, task_of ''b'' FAILED]. task_status t = FAILED)
   \<and> step_status (manifest (complete Status_value
        (fst (add_task_reports (StepReporter_init ''GO'')
           [task_of ''a'' COMPLETED, task_of ''b'' FAILED] False)))) = FAILED
   \<and> step_status (manifest (complete Status_value
        (fst (add_task_reports (StepReporter_init ''GO'')
           [task_of ''a'' COMPLETED, task_of ''b'' VALIDATION_PASSED] False)))) = COMPLETED"
  using complete_status_iff_all_passing
      [of Status_value
          "fst (add_task_reports (StepReporter_init ''GO'')
             [task_of ''a'' COMPLETED, task_of ''b'' VALIDATION_PASSED] False)"
          "StepReporter_init ''GO''" "[task_of ''a'' COMPLETED, task_of ''b'' FAILED]" False]
  by (simp add: task_of_def add_task_report_def StepReporter_init_def new_StepManifest_def
      passing_def Let_def)

text \<open>
  Claim C2, as stated: calling \<^verbatim>\<open>complete()\<close> twice leaves the log as one call does. It
  fails: \<^verbatim>\<open>complete\<close> has no guard against re-entry, and with one task the second call
  writes the line of that task again.
\<close>

theorem complete_twice_log_counterexample:
  "log (manifest (complete Status_value (complete Status_value
      (fst (add_task_report (StepReporter_init ''GO'') (task_of ''a'' COMPLETED) False)))))
   \<noteq> log (manifest (complete Status_value
      (fst (add_task_report (StepReporter_init ''GO'') (task_of ''a'' COMPLETED) False))))"
  by (simp add: complete_log complete_tasks add_task_report_def StepReporter_init_def
      new_StepManifest_def Let_def)

text \<open>
  Claim C2, amended. Every call of \<^verbatim>\<open>complete()\<close> appends one line for each task: after
  two calls the log is the log after one call followed by the lines of all tasks once more,
  so the two logs are equal exactly when the step has no task. The status and the task list
  are the same after one call and after two.
\<close>

theorem complete_twice_appends_again:
  "log (manifest (complete val (complete val r))) =
     log (manifest (complete val r)) @ map (task_line val) (tasks (manifest r))
   \<and> (log (manifest (complete val (complete val r))) = log (manifest (complete val r))
        \<longleftrightarrow> tasks (manifest r) = [])
   \<and> step_status (manifest (complete val (complete val r))) =
       step_status (manifest (complete val r))
   \<and> tasks (manifest (complete val (complete val r))) = tasks (manifest (complete val r))"
  by (simp add: complete_log complete_tasks complete_status)

theorem complete_twice_appends_again_witness:
  "log (manifest (complete Status_value (complete Status_value
      (fst (add_task_report (StepReporter_init ''GO'') (task_of ''a'' FAILED) False))))) =
     [''task `a` FAILED'', ''task `a` FAILED'']
   \<and> log (manifest (complete Status_value (complete Status_value (StepReporter_init ''GO'')))) =
       log (manifest (complete Status_value (StepReporter_init ''GO'')))"
  using complete_twice_appends_again
      [of Status_value "fst (add_task_report (StepReporter_init ''GO'') (task_of ''a'' FAILED) False)"]
    complete_twice_appends_again [of Status_value "StepReporter_init ''GO''"]
  by (simp add: complete_log add_task_report_def StepReporter_init_def new_StepManifest_def
      Let_def task_line_def task_of_def)

text \<open>
  Claim C3. \<^verbatim>\<open>add_task_report(record, abort)\<close> puts the record at the end of the task list
  of the step and changes nothing else of the reporter; afterwards the abort flag is set if
  and only if it was set before or the status of the record is not in
  {COMPLETED, VALIDATION_PASSED} (from a clear flag: if and only if the status is not in that
  set). A flag that is set stays set, over one call and over any sequence of calls.
\<close>

theorem add_task_report_appends_and_sets_abort:
  "tasks (manifest (fst (add_task_report r t abort))) = tasks (manifest r) @ [t]
   \<and> last (tasks (manifest (fst (add_task_report r t abort)))) = t
   \<and> name (fst (add_task_report r t abort)) = name r
   \<and> step_status (manifest (fst (add_task_report r t abort))) = step_status (manifest r)
   \<and> log (manifest (fst (add_task_report r t abort))) = log (manifest r)
   \<and> (snd (add_task_report r t False) \<longleftrightarrow> task_status t \<notin> {COMPLETED, VALIDATION_PASSED})
   \<and> (snd (add_task_report r t abort) \<longleftrightarrow>
        abort \<or> task_status t \<notin> {COMPLETED, VALIDATION_PASSED})
   \<and> (abort \<longrightarrow> snd (add_task_report r t abort))
   \<and> (abort \<longrightarrow> snd (add_task_reports r ts abort))"
  by (simp add: add_task_report_def Let_def passing_iff add_task_reports_abort)

theorem add_task_report_appends_and_sets_abort_witness:
  "snd (add_task_reports (StepReporter_init ''GO'')
      [task_of ''a'' COMPLETED, task_of ''b'' VALIDATION_PASSED] True)
   \<and> snd (add_task_report (StepReporter_init ''GO'') (task_of ''a'' VALIDATION_FAILED) False)
   \<and> \<not> snd (add_task_report (StepReporter_init ''GO'') (task_of ''a'' COMPLETED) False)
   \<and> tasks (manifest (fst (add_task_report (StepReporter_init ''GO'') (task_of ''a'' COMPLETED) True)))
       = [task_of ''a'' COMPLETED]"
  using add_task_report_appends_and_sets_abort
      [of "StepReporter_init ''GO''" "task_of ''a'' COMPLETED" True
          "[task_of ''a'' COMPLETED, task_of ''b'' VALIDATION_PASSED]"]
    add_task_report_appends_and_sets_abort
      [of "StepReporter_init ''GO''" "task_of ''a'' VALIDATION_FAILED" False "[]"]
  by (simp add: task_of_def StepReporter_init_def new_StepManifest_def add_task_report_def
      passing_def Let_def)



text \<open>
  Claim C5. A reporter whose log is empty and whose N task records (N may be 0) all have a
  status in {COMPLETED, VALIDATION_PASSED} has, after one \<^verbatim>\<open>complete()\<close>, the status
  COMPLETED and a log of exactly N lines, the i-th being the line of the i-th task. With no
  task the status is COMPLETED and the log is empty.
\<close>

theorem complete_all_passing_log:
  assumes "log (manifest r) = []"
    and "\<forall>t \<in> set (tasks (manifest r)). task_status t \<in> {COMPLETED, VALIDATION_PASSED}"
  shows "step_status (manifest (complete val r)) = COMPLETED
   \<and> length (log (manifest (complete val r))) = length (tasks (manifest r))
   \<and> log (manifest (complete val r)) = map (task_line val) (tasks (manifest r))
   \<and> (\<forall>i < length (tasks (manifest r)).
        log (manifest (complete val r)) ! i = task_line val (tasks (manifest r) ! i))
   \<and> (tasks (manifest r) = [] \<longrightarrow> log (manifest (complete val r)) = [])"
proof -
  from assms(2) have "list_all (\<lambda>t. passing (task_status t)) (tasks (manifest r))"
    by (simp add: list_all_iff passing_iff)
  then have st: "step_status (manifest (complete val r)) = COMPLETED"
    by (simp add: complete_status)
  have lg: "log (manifest (complete val r)) = map (task_line val) (tasks (manifest r))"
    using assms(1) by (simp add: complete_log)
  from st lg show ?thesis by simp
qed

theorem complete_all_passing_log_witness:
  "log (manifest (StepReporter_init ''GO'')) = []
   \<and> tasks (manifest (StepReporter_init ''GO'')) = []
   \<and> step_status (manifest (complete Status_value (StepReporter_init ''GO''))) = COMPLETED
   \<and> log (manifest (complete Status_value (StepReporter_init ''GO''))) = []
   \<and> log (manifest (fst (add_task_reports (StepReporter_init ''GO'')
        [task_of ''a'' COMPLETED, task_of ''b'' VALIDATION_PASSED] False))) = []
   \<and> tasks (manifest (fst (add_task_reports (StepReporter_init ''GO'')
        [task_of ''a'' COMPLETED, task_of ''b'' VALIDATION_PASSED] False))) =
       [task_of ''a'' COMPLETED, task_of ''b'' VALIDATION_PASSED]
   \<and> log (manifest (complete Status_value (fst (add_task_reports (StepReporter_init ''GO'')
        [task_of ''a'' COMPLETED, task_of ''b'' VALIDATION_PASSED] False)))) =
       [''task `a` COMPLETED'', ''task `b` VALIDATION_PASSED'']"
proof -
  let ?r0 = "StepReporter_init ''GO''"
  let ?r2 = "fst (add_task_reports (StepReporter_init ''GO'')
        [task_of ''a'' COMPLETED, task_of ''b'' VALIDATION_PASSED] False)"
  have h0: "log (manifest ?r0) = []"
    by (simp add: StepReporter_init_def new_StepManifest_def)
  have t0: "tasks (manifest ?r0) = []"
    by (simp add: StepReporter_init_def new_StepManifest_def)
  have k0: "\<forall>t \<in> set (tasks (manifest ?r0)). task_status t \<in> {COMPLETED, VALIDATION_PASSED}"
    unfolding t0 by simp
  have h2: "log (manifest ?r2) = []"
    by (simp add: StepReporter_init_def new_StepManifest_def add_task_report_def Let_def)
  have t2: "tasks (manifest ?r2) = [task_of ''a'' COMPLETED, task_of ''b'' VALIDATION_PASSED]"
    by (simp add: StepReporter_init_def new_StepManifest_def add_task_report_def Let_def)
  have k2: "\<forall>t \<in> set (tasks (manifest ?r2)). task_status t \<in> {COMPLETED, VALIDATION_PASSED}"
    unfolding t2 by (simp add: task_of_def)
  from complete_all_passing_log [OF h0 k0, of Status_value]
    complete_all_passing_log [OF h2 k2, of Status_value] h0 t0 h2 t2
  show ?thesis
    by (simp add: task_line_def task_of_def)
qed

section \<open>Properties of the GO step\<close>

lemma are_all_resources_complete_iff:
  "are_all_resources_complete rs \<longleftrightarrow>
     (\<forall>r \<in> set rs. task_status r \<in> {COMPLETED, VALIDATION_PASSED})"
  by (simp add: are_all_resources_complete_def list_all_iff passing_iff)

lemma compute_checksum_status: "task_status (compute_checksum digest r) = task_status r"
  by (simp add: compute_checksum_def split: option.splits)

lemma compute_checksums_status:
  "map task_status (compute_checksums digest rs) = map task_status rs"
  by (simp add: compute_checksums_def compute_checksum_status)

text \<open>
  Claim C6, as stated: after \<^verbatim>\<open>process\<close> the status is FAILED if and only if
  \<^verbatim>\<open>are_all_resources_complete\<close> is false, and COMPLETED otherwise. It fails for a step
  that is FAILED when \<^verbatim>\<open>process\<close> starts: with every resource complete (here: none at
  all) the guard \<^verbatim>\<open>status_completion != FAILED\<close> keeps the status FAILED.
\<close>

theorem GO_process_status_counterexample:
  "are_all_resources_complete (resources
      (GO_process (compute_checksums unreadable) are_all_resources_complete []
         \<lparr>resources = [], status_completion = FAILED, msg_completion = ''earlier''\<rparr>))
   \<and> status_completion
      (GO_process (compute_checksums unreadable) are_all_resources_complete []
         \<lparr>resources = [], status_completion = FAILED, msg_completion = ''earlier''\<rparr>) \<noteq> COMPLETED"
  by (simp add: GO_process_def Let_def compute_checksums_def are_all_resources_complete_def)

text \<open>
  Claim C6, amended. In \<^verbatim>\<open>process\<close>, once the downloaded records are added to the
  resources of the step and the checksums are computed: if \<^verbatim>\<open>are_all_resources_complete\<close>
  is false on the resources, the status becomes FAILED with the message
  \<^verbatim>\<open>COULD NOT retrieve all the resources\<close>; if it is true and the step was not FAILED on
  entry, the status becomes COMPLETED with the message \<^verbatim>\<open>The step has completed its
  execution\<close>; if it is true and the step was FAILED on entry, status and message stay as
  they were. The predicate of the spec is true iff every record has a status in
  {COMPLETED, VALIDATION_PASSED}, and the checksums of the spec change no status.
\<close>

theorem GO_process_status:
  "resources (GO_process checksums all_complete downloaded s) =
     checksums (resources s @ downloaded)
   \<and> (\<not> all_complete (checksums (resources s @ downloaded)) \<longrightarrow>
        status_completion (GO_process checksums all_complete downloaded s) = FAILED
        \<and> msg_completion (GO_process checksums all_complete downloaded s) =
            ''COULD NOT retrieve all the resources'')
   \<and> (all_complete (checksums (resources s @ downloaded)) \<and> status_completion s \<noteq> FAILED \<longrightarrow>
        status_completion (GO_process checksums all_complete downloaded s) = COMPLETED
        \<and> msg_completion (GO_process checksums all_complete downloaded s) =
            ''The step has completed its execution'')
   \<and> (all_complete (checksums (resources s @ downloaded)) \<and> status_completion s = FAILED \<longrightarrow>
        status_completion (GO_process checksums all_complete downloaded s) = FAILED
        \<and> msg_completion (GO_process checksums all_complete downloaded s) = msg_completion s)
   \<and> (are_all_resources_complete rs \<longleftrightarrow>
        (\<forall>r \<in> set rs. task_status r \<in> {COMPLETED, VALIDATION_PASSED}))
   \<and> map task_status (compute_checksums digest rs) = map task_status rs"
proof -
  have a: "resources (GO_process checksums all_complete downloaded s) =
     checksums (resources s @ downloaded)"
    by (simp add: GO_process_def Let_def)
  have b: "\<not> all_complete (checksums (resources s @ downloaded)) \<longrightarrow>
        status_completion (GO_process checksums all_complete downloaded s) = FAILED
        \<and> msg_completion (GO_process checksums all_complete downloaded s) =
            ''COULD NOT retrieve all the resources''"
    by (simp add: GO_process_def Let_def)
  have c: "all_complete (checksums (resources s @ downloaded)) \<and> status_completion s \<noteq> FAILED \<longrightarrow>
        status_completion (GO_process checksums all_complete downloaded s) = COMPLETED
        \<and> msg_completion (GO_process checksums all_complete downloaded s) =
            ''The step has completed its execution''"
    by (simp add: GO_process_def Let_def)
  have d: "all_complete (checksums (resources s @ downloaded)) \<and> status_completion s = FAILED \<longrightarrow>
        status_completion (GO_process checksums all_complete downloaded s) = FAILED
        \<and> msg_completion (GO_process checksums all_complete downloaded s) = msg_completion s"
    by (simp add: GO_process_def Let_def)
  from a b c d are_all_resources_complete_iff [of rs] compute_checksums_status [of digest rs]
  show ?thesis by blast
qed

theorem GO_process_status_witness:
  "status_completion (GO_process (compute_checksums unreadable) are_all_resources_complete
      [task_of ''a'' COMPLETED, task_of ''b'' COMPLETED, task_of ''c'' FAILED]
      \<lparr>resources = [], status_completion = PENDING, msg_completion = []\<rparr>) = FAILED
   \<and> status_completion (GO_process (compute_checksums unreadable) are_all_resources_complete
      [task_of ''a'' COMPLETED, task_of ''b'' VALIDATION_PASSED]
      \<lparr>resources = [], status_completion = PENDING, msg_completion = []\<rparr>) = COMPLETED
   \<and> msg_completion (GO_process (compute_checksums unreadable) are_all_resources_complete
      [task_of ''a'' COMPLETED]
      \<lparr>resources = [], status_completion = FAILED, msg_completion = ''earlier''\<rparr>) = ''earlier''"
  using GO_process_status
      [of "compute_checksums unreadable" are_all_resources_complete
          "[task_of ''a'' COMPLETED, task_of ''b'' COMPLETED, task_of ''c'' FAILED]"
          "\<lparr>resources = [], status_completion = PENDING, msg_completion = []\<rparr>"
          "[task_of ''a'' COMPLETED]" unreadable]
    GO_process_status
      [of "compute_checksums unreadable" are_all_resources_complete
          "[task_of ''a'' COMPLETED, task_of ''b'' VALIDATION_PASSED]"
          "\<lparr>resources = [], status_completion = PENDING, msg_completion = []\<rparr>"
          "[]" unreadable]
    GO_process_status
      [of "compute_checksums unreadable" are_all_resources_complete
          "[task_of ''a'' COMPLETED]"
          "\<lparr>resources = [], status_completion = FAILED, msg_completion = ''earlier''\<rparr>"
          "[]" unreadable]
  by (simp add: compute_checksums_def compute_checksum_def unreadable_def task_of_def
      are_all_resources_complete_def passing_def)

section \<open>Properties of the Google Cloud Storage helper\<close>

lemma bucket_exists_iff:
  "bucket_exists self url \<longleftrightarrow> (\<exists>b. client self (fst (parse_url url)) = Inr b)"
  by (auto simp: bucket_exists_def split: prod.splits sum.splits CloudError.splits)

text \<open>
  Claim C7. The constructor of the helper ends in \<^verbatim>\<open>sys.exit(1)\<close>, and builds no helper,
  when the default credentials are missing, when the setting \<^verbatim>\<open>gcp_bucket_path\<close> is unset,
  and when the configured bucket does not exist (the lookup raises \<^verbatim>\<open>NotFound\<close> or another
  cloud error); in no other case. The exit status is 1, so not zero. The constructor has no
  step manifest at hand: its only result is the exit or the helper.
\<close>

theorem GoogleHelper_init_exits:
  "(GoogleHelper_init env = Inl (SystemExit 1) \<longleftrightarrow>
      (\<exists>e. auth_default env = Inl e) \<or> gcp_bucket_path env = None
      \<or> (\<exists>path. gcp_bucket_path env = Some path
            \<and> \<not> bucket_exists \<lparr>client = storage_Client env\<rparr> path))
   \<and> (gcp_bucket_path env = Some path
        \<and> (\<exists>e. storage_Client env (fst (parse_url path)) = Inl e) \<longrightarrow>
        GoogleHelper_init env = Inl (SystemExit 1))
   \<and> (\<forall>x. GoogleHelper_init env = Inl x \<longrightarrow> x = SystemExit 1 \<and> x \<noteq> SystemExit 0)
   \<and> (\<forall>self. GoogleHelper_init env = Inr self \<longrightarrow> client self = storage_Client env)"
proof -
  have a: "GoogleHelper_init env = Inl (SystemExit 1) \<longleftrightarrow>
      (\<exists>e. auth_default env = Inl e) \<or> gcp_bucket_path env = None
      \<or> (\<exists>path. gcp_bucket_path env = Some path
            \<and> \<not> bucket_exists \<lparr>client = storage_Client env\<rparr> path)"
    by (cases "auth_default env"; cases "gcp_bucket_path env")
      (simp_all add: GoogleHelper_init_def Let_def)
  have b: "gcp_bucket_path env = Some path
        \<and> (\<exists>e. storage_Client env (fst (parse_url path)) = Inl e) \<longrightarrow>
        GoogleHelper_init env = Inl (SystemExit 1)"
    unfolding a by (auto simp: bucket_exists_iff)
  have c: "\<forall>x. GoogleHelper_init env = Inl x \<longrightarrow> x = SystemExit 1 \<and> x \<noteq> SystemExit 0"
    by (cases "auth_default env"; cases "gcp_bucket_path env")
      (auto simp: GoogleHelper_init_def Let_def split: if_splits)
  have d: "\<forall>self. GoogleHelper_init env = Inr self \<longrightarrow> client self = storage_Client env"
    by (cases "auth_default env"; cases "gcp_bucket_path env")
      (auto simp: GoogleHelper_init_def Let_def split: if_splits)
  from a b c d show ?thesis by blast
qed

lemma py_replace_example: "py_replace ''gs://'' [] ''gs://b/in'' = ''b/in''"
  by code_simp

lemma py_replace_example_missing: "py_replace ''gs://'' [] ''gs://nowhere'' = ''nowhere''"
  by code_simp

lemma parse_url_example: "parse_url ''gs://b/in'' = (''b'', Some ''in'')"
  by (simp add: parse_url_def split1_def py_replace_example)

lemma parse_url_example_missing: "parse_url ''gs://nowhere'' = (''nowhere'', None)"
  by (simp add: parse_url_def split1_def py_replace_example_missing)

theorem GoogleHelper_init_exits_witness:
  "GoogleHelper_init \<lparr>auth_default = Inl ''no credentials'', gcp_bucket_path = Some ''gs://b/in'',
      storage_Client = example_client\<rparr> = Inl (SystemExit 1)
   \<and> GoogleHelper_init \<lparr>auth_default = Inr ''project'', gcp_bucket_path = None,
      storage_Client = example_client\<rparr> = Inl (SystemExit 1)
   \<and> GoogleHelper_init \<lparr>auth_default = Inr ''project'', gcp_bucket_path = Some ''gs://nowhere'',
      storage_Client = example_client\<rparr> = Inl (SystemExit 1)
   \<and> GoogleHelper_init \<lparr>auth_default = Inr ''project'', gcp_bucket_path = Some ''gs://b/in'',
      storage_Client = example_client\<rparr> = Inr \<lparr>client = example_client\<rparr>"
proof -
  let ?e1 = "\<lparr>auth_default = Inl ''no credentials'', gcp_bucket_path = Some ''gs://b/in'',
      storage_Client = example_client\<rparr>"
  let ?e2 = "\<lparr>auth_default = Inr ''project'', gcp_bucket_path = None,
      storage_Client = example_client\<rparr>"
  let ?e3 = "\<lparr>auth_default = Inr ''project'', gcp_bucket_path = Some ''gs://nowhere'',
      storage_Client = example_client\<rparr>"
  let ?e4 = "\<lparr>auth_default = Inr ''project'', gcp_bucket_path = Some ''gs://b/in'',
      storage_Client = example_client\<rparr>"
  have h1: "\<exists>e. auth_default ?e1 = Inl e" by simp
  have h2: "gcp_bucket_path ?e2 = None" by simp
  have h3: "gcp_bucket_path ?e3 = Some ''gs://nowhere''
      \<and> (\<exists>e. storage_Client ?e3 (fst (parse_url ''gs://nowhere'')) = Inl e)"
    by (simp add: parse_url_example_missing example_client_def)
  have k1: "GoogleHelper_init ?e1 = Inl (SystemExit 1)"
    using GoogleHelper_init_exits [of ?e1 "''gs://b/in''", THEN conjunct1] h1 by blast
  have k2: "GoogleHelper_init ?e2 = Inl (SystemExit 1)"
    using GoogleHelper_init_exits [of ?e2 "''gs://b/in''", THEN conjunct1] h2 by blast
  have k3: "GoogleHelper_init ?e3 = Inl (SystemExit 1)"
    using GoogleHelper_init_exits [of ?e3 "''gs://nowhere''", THEN conjunct2, THEN conjunct1] h3
    by blast
  have k4: "GoogleHelper_init ?e4 = Inr \<lparr>client = example_client\<rparr>"
    by (simp add: GoogleHelper_init_def bucket_exists_def parse_url_example example_client_def)
  from k1 k2 k3 k4 show ?thesis by blast
qed

text \<open>
  Claim C9. \<^verbatim>\<open>list\<close> filters by \<open>exclude\<close> only when \<open>include\<close> is \<open>None\<close>: with an
  \<open>include\<close> the result is the same whatever \<open>exclude\<close> is, namely the blobs whose names
  contain \<open>include\<close>. When the lookup of the bucket (or the listing of its blobs) raises
  \<^verbatim>\<open>NotFound\<close> or another cloud error, the result is the empty list.
\<close>

theorem GoogleHelper_list_filters:
  "GoogleHelper_list self url (Some i) exclude = GoogleHelper_list self url (Some i) None
   \<and> ((\<exists>e. client self (fst (parse_url url)) = Inl e) \<longrightarrow>
        GoogleHelper_list self url include exclude = [])
   \<and> (client self (fst (parse_url url)) = Inr bucket
        \<and> (\<exists>e. list_blobs bucket (snd (parse_url url)) = Inl e) \<longrightarrow>
        GoogleHelper_list self url include exclude = [])
   \<and> (client self (fst (parse_url url)) = Inr bucket
        \<and> list_blobs bucket (snd (parse_url url)) = Inr names \<longrightarrow>
        GoogleHelper_list self url (Some i) exclude =
          map (\<lambda>blob. ''gs://'' @ fst (parse_url url) @ ''/'' @ blob)
            (filter (\<lambda>blob. sublist i blob) names)
        \<and> GoogleHelper_list self url None (Some x) =
          map (\<lambda>blob. ''gs://'' @ fst (parse_url url) @ ''/'' @ blob)
            (filter (\<lambda>blob. \<not> sublist x blob) names)
        \<and> GoogleHelper_list self url None None =
          map (\<lambda>blob. ''gs://'' @ fst (parse_url url) @ ''/'' @ blob) names)"
proof -
  obtain bucket_name pfx where pu: "parse_url url = (bucket_name, pfx)"
    by (cases "parse_url url")
  have a: "GoogleHelper_list self url (Some i) exclude = GoogleHelper_list self url (Some i) None"
    by (simp add: GoogleHelper_list_def pu split: sum.splits CloudError.splits)
  have b: "(\<exists>e. client self (fst (parse_url url)) = Inl e) \<longrightarrow>
        GoogleHelper_list self url include exclude = []"
    by (auto simp: GoogleHelper_list_def pu split: CloudError.splits)
  have c: "client self (fst (parse_url url)) = Inr bucket
        \<and> (\<exists>e. list_blobs bucket (snd (parse_url url)) = Inl e) \<longrightarrow>
        GoogleHelper_list self url include exclude = []"
    by (auto simp: GoogleHelper_list_def pu split: CloudError.splits)
  have d: "client self (fst (parse_url url)) = Inr bucket
        \<and> list_blobs bucket (snd (parse_url url)) = Inr names \<longrightarrow>
        GoogleHelper_list self url (Some i) exclude =
          map (\<lambda>blob. ''gs://'' @ fst (parse_url url) @ ''/'' @ blob)
            (filter (\<lambda>blob. sublist i blob) names)
        \<and> GoogleHelper_list self url None (Some x) =
          map (\<lambda>blob. ''gs://'' @ fst (parse_url url) @ ''/'' @ blob)
            (filter (\<lambda>blob. \<not> sublist x blob) names)
        \<and> GoogleHelper_list self url None None =
          map (\<lambda>blob. ''gs://'' @ fst (parse_url url) @ ''/'' @ blob) names"
    by (simp add: GoogleHelper_list_def pu Let_def)
  from a b c d show ?thesis by blast
qed

lemma example_include: "filter (\<lambda>blob. sublist ''a.txt'' blob)
    [''in/a.txt'', ''in/b.csv'', ''out/a.txt''] = [''in/a.txt'', ''out/a.txt'']"
  by code_simp

lemma example_exclude: "filter (\<lambda>blob. \<not> sublist ''in/'' blob)
    [''in/a.txt'', ''in/b.csv'', ''out/a.txt''] = [''out/a.txt'']"
  by code_simp

theorem GoogleHelper_list_filters_witness:
  "GoogleHelper_list \<lparr>client = example_client\<rparr> ''gs://b/in'' (Some ''a.txt'') (Some ''in/'') =
     [''gs://b/in/a.txt'', ''gs://b/out/a.txt'']
   \<and> GoogleHelper_list \<lparr>client = example_client\<rparr> ''gs://b/in'' None (Some ''in/'') =
     [''gs://b/out/a.txt'']
   \<and> GoogleHelper_list \<lparr>client = example_client\<rparr> ''gs://nowhere'' None (Some ''in/'') = []"
proof -
  let ?h = "\<lparr>client = example_client\<rparr>"
  let ?names = "[''in/a.txt'', ''in/b.csv'', ''out/a.txt'']"
  have ok: "client ?h (fst (parse_url ''gs://b/in'')) = Inr example_bucket
      \<and> list_blobs example_bucket (snd (parse_url ''gs://b/in'')) = Inr ?names"
    by (simp add: parse_url_example example_client_def example_bucket_def)
  have missing: "\<exists>e. client ?h (fst (parse_url ''gs://nowhere'')) = Inl e"
    by (simp add: parse_url_example_missing example_client_def)
  from GoogleHelper_list_filters
      [of ?h "''gs://b/in''" "''a.txt''" "Some ''in/''" None example_bucket ?names "''in/''",
       THEN conjunct2, THEN conjunct2, THEN conjunct2] ok
  have k: "GoogleHelper_list ?h ''gs://b/in'' (Some ''a.txt'') (Some ''in/'') =
          map (\<lambda>blob. ''gs://'' @ fst (parse_url ''gs://b/in'') @ ''/'' @ blob)
            (filter (\<lambda>blob. sublist ''a.txt'' blob) ?names)
        \<and> GoogleHelper_list ?h ''gs://b/in'' None (Some ''in/'') =
          map (\<lambda>blob. ''gs://'' @ fst (parse_url ''gs://b/in'') @ ''/'' @ blob)
            (filter (\<lambda>blob. \<not> sublist ''in/'' blob) ?names)"
    by blast
  from GoogleHelper_list_filters
      [of ?h "''gs://nowhere''" "''a.txt''" "Some ''in/''" None example_bucket ?names "''in/''",
       THEN conjunct2, THEN conjunct1] missing
  have m: "GoogleHelper_list ?h ''gs://nowhere'' None (Some ''in/'') = []"
    by blast
  from k m show ?thesis
    unfolding example_include example_exclude parse_url_example by simp
qed

section \<open>Properties of \<^verbatim>\<open>_parse_url\<close>\<close>

lemma prefix_gs_border:
  assumes "s \<noteq> []" and "prefix ''gs://'' (s @ ''gs://'' @ b)"
  shows "prefix ''gs://'' s"
proof (cases "length s < 5")
  case False
  then have "length ''gs://'' \<le> length s" by simp
  with assms(2) show ?thesis
    by (metis prefix_length_prefix prefixI)
next
  case True
  from assms(1) obtain c1 s1 where s: "s = c1 # s1" by (cases s) auto
  show ?thesis
  proof (cases s1)
    case Nil
    with s assms(2) show ?thesis by simp
  next
    case (Cons c2 s2)
    note s1 = this
    show ?thesis
    proof (cases s2)
      case Nil
      with s s1 assms(2) show ?thesis by simp
    next
      case (Cons c3 s3)
      note s2 = this
      show ?thesis
      proof (cases s3)
        case Nil
        with s s1 s2 assms(2) show ?thesis by simp
      next
        case (Cons c4 s4)
        with s s1 s2 True have "s4 = []" by simp
        with s s1 s2 Cons assms(2) show ?thesis by simp
      qed
    qed
  qed
qed

lemma py_replace_gs_append:
  "old = ''gs://'' \<Longrightarrow> new = [] \<Longrightarrow>
   py_replace old new (s @ old @ b) = py_replace old new s @ py_replace old new b"
proof (induction old new s rule: py_replace.induct)
  case (1 old new s)
  show ?case
  proof (cases "s = []")
    case True
    have "py_replace old new (old @ b) = new @ py_replace old new (drop (length old) (old @ b))"
      using "1.prems" by (subst py_replace.simps) simp
    moreover have "py_replace old new [] = []"
      using "1.prems" by (subst py_replace.simps) simp
    ultimately show ?thesis using True "1.prems" by simp
  next
    case False
    note ne = this
    show ?thesis
    proof (cases "prefix old s")
      case True
      then obtain s' where s': "s = old @ s'" by (auto simp: prefix_def)
      have old: "old \<noteq> []" using "1.prems" by simp
      have ih: "py_replace old new (drop (length old) s @ old @ b) =
          py_replace old new (drop (length old) s) @ py_replace old new b"
        using "1.IH"(1) [OF old ne True "1.prems"] .
      have l: "py_replace old new (s @ old @ b) =
          new @ py_replace old new (drop (length old) (s @ old @ b))"
        using old ne True by (subst py_replace.simps) simp
      have r: "py_replace old new s = new @ py_replace old new (drop (length old) s)"
        using old ne True by (subst py_replace.simps) simp
      from ih l r s' "1.prems" show ?thesis by simp
    next
      case False
      have old: "old \<noteq> []" using "1.prems" by simp
      have nb: "\<not> prefix old (s @ old @ b)"
        using prefix_gs_border [OF ne, of b] False "1.prems" by blast
      have ih: "py_replace old new (tl s @ old @ b) =
          py_replace old new (tl s) @ py_replace old new b"
        using "1.IH"(2) [OF old ne False "1.prems"] .
      have l: "py_replace old new (s @ old @ b) =
          hd (s @ old @ b) # py_replace old new (tl (s @ old @ b))"
        using old ne nb by (subst py_replace.simps) simp
      have r: "py_replace old new s = hd s # py_replace old new (tl s)"
        using old ne False by (subst py_replace.simps) simp
      from ih l r ne show ?thesis by simp
    qed
  qed
qed

lemma py_replace_absent:
  "old \<noteq> [] \<Longrightarrow> \<not> sublist old s \<Longrightarrow> py_replace old new s = s"
proof (induction old new s rule: py_replace.induct)
  case (1 old new s)
  show ?case
  proof (cases "s = []")
    case True
    then show ?thesis using "1.prems" by (subst py_replace.simps) simp
  next
    case False
    have np: "\<not> prefix old s"
      using "1.prems"(2) prefix_imp_sublist by blast
    have "\<not> sublist old (tl s)"
      using "1.prems"(2) False by (metis list.collapse sublist_Cons_right)
    then have ih: "py_replace old new (tl s) = tl s"
      using "1.IH"(2) [OF "1.prems"(1) False np "1.prems"(1)] by simp
    have "py_replace old new s = hd s # py_replace old new (tl s)"
      using "1.prems"(1) False np by (subst py_replace.simps) simp
    with ih False show ?thesis by simp
  qed
qed

lemma split1_present:
  assumes "sep \<in> set s"
  shows "split1 sep s = [takeWhile (\<lambda>c. c \<noteq> sep) s, tl (dropWhile (\<lambda>c. c \<noteq> sep) s)]"
    and "s = takeWhile (\<lambda>c. c \<noteq> sep) s @ sep # tl (dropWhile (\<lambda>c. c \<noteq> sep) s)"
proof -
  show "split1 sep s = [takeWhile (\<lambda>c. c \<noteq> sep) s, tl (dropWhile (\<lambda>c. c \<noteq> sep) s)]"
    using assms by (simp add: split1_def)
  from assms have ne: "dropWhile (\<lambda>c. c \<noteq> sep) s \<noteq> []" by simp
  then have "hd (dropWhile (\<lambda>c. c \<noteq> sep) s) = sep"
    using hd_dropWhile [of "\<lambda>c. c \<noteq> sep" s] by simp
  with ne have "dropWhile (\<lambda>c. c \<noteq> sep) s = sep # tl (dropWhile (\<lambda>c. c \<noteq> sep) s)"
    by (metis list.collapse)
  then show "s = takeWhile (\<lambda>c. c \<noteq> sep) s @ sep # tl (dropWhile (\<lambda>c. c \<noteq> sep) s)"
    by (metis takeWhile_dropWhile_id)
qed

lemma split1_absent: "sep \<notin> set s \<Longrightarrow> split1 sep s = [s]"
  by (simp add: split1_def)

lemma parse_url_fst:
  "fst (parse_url url) = takeWhile (\<lambda>c. c \<noteq> CHR ''/'') (py_replace ''gs://'' [] url)"
proof (cases "CHR ''/'' \<in> set (py_replace ''gs://'' [] url)")
  case True
  then show ?thesis by (simp add: parse_url_def split1_def Let_def)
next
  case False
  then have tw: "takeWhile (\<lambda>c. c \<noteq> CHR ''/'') (py_replace ''gs://'' [] url) =
      py_replace ''gs://'' [] url"
    unfolding takeWhile_eq_all_conv by blast
  from False have "fst (parse_url url) = py_replace ''gs://'' [] url"
    by (simp add: parse_url_def split1_def Let_def)
  then show ?thesis by (simp only: tw)
qed

lemma parse_url_snd:
  "snd (parse_url url) =
     (if CHR ''/'' \<in> set (py_replace ''gs://'' [] url)
      then Some (tl (dropWhile (\<lambda>c. c \<noteq> CHR ''/'') (py_replace ''gs://'' [] url)))
      else None)"
  by (simp add: parse_url_def split1_def Let_def)

text \<open>
  Claim C10. \<^verbatim>\<open>_parse_url\<close> takes every occurrence of \<^verbatim>\<open>gs://\<close> out of the url, wherever
  it stands: a url without the substring is left as it is, and for a url with \<^verbatim>\<open>gs://\<close>
  between any two parts the result is the result for the first part followed by the result
  for the second. The remainder is split at its first \<^verbatim>\<open>/\<close>: the first component is the
  text before that \<^verbatim>\<open>/\<close> (it holds no \<^verbatim>\<open>/\<close>; it is the whole remainder when there is
  none), the second component is the text after it, and the second component is \<open>None\<close> if
  and only if the remainder holds no \<^verbatim>\<open>/\<close>.
\<close>

theorem parse_url_strips_and_splits:
  "py_replace ''gs://'' [] (a @ ''gs://'' @ b) =
     py_replace ''gs://'' [] a @ py_replace ''gs://'' [] b
   \<and> (\<not> sublist ''gs://'' url \<longrightarrow> py_replace ''gs://'' [] url = url)
   \<and> fst (parse_url url) = takeWhile (\<lambda>c. c \<noteq> CHR ''/'') (py_replace ''gs://'' [] url)
   \<and> CHR ''/'' \<notin> set (fst (parse_url url))
   \<and> (snd (parse_url url) = None \<longleftrightarrow> CHR ''/'' \<notin> set (py_replace ''gs://'' [] url))
   \<and> (snd (parse_url url) = None \<longrightarrow> fst (parse_url url) = py_replace ''gs://'' [] url)
   \<and> (\<forall>rest. snd (parse_url url) = Some rest \<longrightarrow>
        py_replace ''gs://'' [] url = fst (parse_url url) @ CHR ''/'' # rest)"
proof -
  let ?stripped = "py_replace ''gs://'' [] url"
  have a: "py_replace ''gs://'' [] (a @ ''gs://'' @ b) =
     py_replace ''gs://'' [] a @ py_replace ''gs://'' [] b"
    by (rule py_replace_gs_append) simp_all
  have b: "\<not> sublist ''gs://'' url \<longrightarrow> ?stripped = url"
    using py_replace_absent [of "''gs://''" url "[]"] by simp
  have c: "fst (parse_url url) = takeWhile (\<lambda>c. c \<noteq> CHR ''/'') ?stripped"
    by (rule parse_url_fst)
  have d: "CHR ''/'' \<notin> set (fst (parse_url url))"
    unfolding c using set_takeWhileD by fastforce
  have e: "snd (parse_url url) = None \<longleftrightarrow> CHR ''/'' \<notin> set ?stripped"
    by (simp add: parse_url_snd)
  have f: "snd (parse_url url) = None \<longrightarrow> fst (parse_url url) = ?stripped"
  proof
    assume "snd (parse_url url) = None"
    with e have "CHR ''/'' \<notin> set ?stripped" by simp
    then show "fst (parse_url url) = ?stripped"
      by (simp add: parse_url_def split1_absent Let_def)
  qed
  have g: "\<forall>rest. snd (parse_url url) = Some rest \<longrightarrow>
        ?stripped = fst (parse_url url) @ CHR ''/'' # rest"
  proof (intro allI impI)
    fix rest
    assume r: "snd (parse_url url) = Some rest"
    then have m: "CHR ''/'' \<in> set ?stripped"
      by (simp add: parse_url_snd split: if_splits)
    with r have "rest = tl (dropWhile (\<lambda>c. c \<noteq> CHR ''/'') ?stripped)"
      by (simp add: parse_url_snd)
    with split1_present(2) [OF m] c
    show "?stripped = fst (parse_url url) @ CHR ''/'' # rest" by simp
  qed
  from a b c d e f g show ?thesis by blast
qed

lemma py_replace_example_inner:
  "py_replace ''gs://'' [] ''gs://b/gs://c'' = ''b/c''"
  by code_simp

lemma parse_url_example_inner: "parse_url ''gs://b/gs://c'' = (''b'', Some ''c'')"
  by (simp add: parse_url_def split1_def py_replace_example_inner)

lemma sublist_example_absent: "\<not> sublist ''gs://'' ''b/in''"
  by code_simp

theorem parse_url_strips_and_splits_witness:
  "parse_url ''gs://b/gs://c'' = (''b'', Some ''c'')
   \<and> py_replace ''gs://'' [] ''gs://b/gs://c'' = ''b'' @ CHR ''/'' # ''c''
   \<and> py_replace ''gs://'' [] ''b/in'' = ''b/in''
   \<and> parse_url ''gs://nowhere'' = (''nowhere'', None)
   \<and> fst (parse_url ''gs://nowhere'') = py_replace ''gs://'' [] ''gs://nowhere''"
proof -
  have s: "snd (parse_url ''gs://b/gs://c'') = Some ''c''"
    by (simp add: parse_url_example_inner)
  have f: "fst (parse_url ''gs://b/gs://c'') = ''b''"
    by (simp add: parse_url_example_inner)
  have n: "snd (parse_url ''gs://nowhere'') = None"
    by (simp add: parse_url_example_missing)
  from parse_url_strips_and_splits [of "[]" "[]" "''gs://b/gs://c''"] s
  have k1: "py_replace ''gs://'' [] ''gs://b/gs://c'' =
      fst (parse_url ''gs://b/gs://c'') @ CHR ''/'' # ''c''"
    by blast
  from parse_url_strips_and_splits [of "[]" "[]" "''b/in''"] sublist_example_absent
  have k2: "py_replace ''gs://'' [] ''b/in'' = ''b/in''"
    by blast
  from parse_url_strips_and_splits [of "[]" "[]" "''gs://nowhere''"] n
  have k3: "fst (parse_url ''gs://nowhere'') = py_replace ''gs://'' [] ''gs://nowhere''"
    by blast
  from k1 k2 k3 f show ?thesis
    by (simp add: parse_url_example_inner parse_url_example_missing)
qed

section \<open>Properties of the settings\<close>







end
